theory Spec2Isabelle
  imports Complex_Main
begin

section \<open>The column scroll logger (yourcode.js)\<close>

text \<open>
  The script defines one class, \<^verbatim>\<open>ColumnScrollLogger\<close>, and instantiates it once. Its
  constructor collects the elements of class \<^verbatim>\<open>column\<close>, gives each of them three
  one-shot event listeners, and registers \<^verbatim>\<open>checkColumnPosition\<close> as the handler of the
  window's scroll and resize events.

  Modelling decisions.
  \<^item> An element is a handle (a number); what the browser knows about it at the time of one
    scroll or resize signal is a \<open>host\<close> record of queries. The host may change freely
    between two signals.
  \<^item> A JavaScript number is a double. The values the host reports and the results of
    comparisons are modelled as \<open>real\<close> numbers; the one place where the code computes,
    \<^verbatim>\<open>colStart + rect.height / 2\<close>, rounds each exact result to a double, and that rounding is
    the function \<open>toDouble\<close> of the host, about which nothing is assumed. NaN and the
    infinities are not modelled.
  \<^item> A host query may fail (\<open>None\<close>), which stands for the query throwing. Browsers
    differ in this: Internet Explorer throws from \<^verbatim>\<open>getBoundingClientRect\<close> on an element
    that is detached from the document, where current browsers answer a rectangle of zeros.
    The model assumes nothing about when a query fails.
  \<^item> The method \<^verbatim>\<open>isHidden\<close> calls itself once for every parent it walks to, and every
    call takes a frame of the engine's call stack. The host says for how many nested calls
    of \<^verbatim>\<open>isHidden\<close> the stack has room (\<open>stackFrames\<close>); a call beyond that throws a
    \<^verbatim>\<open>RangeError\<close>. The parent links of a host are an arbitrary function, so a chain of
    parents may be cyclic: the walk on it ends in that error, as it does in the engine.
\<close>

subsection \<open>Data\<close>

type_synonym elem = nat

datatype position = Start | Center | End

datatype direction = Down | Up

datatype error = HostError | TypeError | RangeError

text \<open>The two values \<^verbatim>\<open>isHidden\<close> returns: \<^verbatim>\<open>true\<close>, and \<^verbatim>\<open>undefined\<close> when it falls off its
  end without a \<^verbatim>\<open>return\<close>.\<close>

datatype jsval = JTrue | JUndefined

fun truthy :: "jsval \<Rightarrow> bool" where
  "truthy JTrue = True"
| "truthy JUndefined = False"

text \<open>The fields of a \<^verbatim>\<open>DOMRect\<close> the code reads (\<^verbatim>\<open>top\<close>, \<^verbatim>\<open>height\<close>, \<^verbatim>\<open>bottom\<close>; suffixed, as
  \<open>top\<close> is a constant of HOL).\<close>

record rect =
  top_rect :: real
  height_rect :: real
  bottom_rect :: real

text \<open>What the browser and the engine answer during one signal.\<close>

record host =
  pageYOffset :: real
  scrollTop :: real
  innerHeight :: real
  getBoundingClientRect :: "elem \<Rightarrow> rect option"
  getComputedStyle :: "elem \<Rightarrow> string option"
  parentElement :: "elem \<Rightarrow> elem option"
  toDouble :: "real \<Rightarrow> real"
  stackFrames :: nat

text \<open>What the document answers when the logger is constructed: the elements matching
  \<^verbatim>\<open>.column\<close>, in document order, and the \<^verbatim>\<open>id\<close> attribute of each element, if it has one.\<close>

record page =
  querySelectorAll_column :: "elem list"
  id_attribute :: "elem \<Rightarrow> string option"

text \<open>\<^verbatim>\<open>el.id\<close>: the DOM reflects the attribute, and answers the empty string when the
  attribute is absent.\<close>

definition element_id :: "page \<Rightarrow> elem \<Rightarrow> string" where
  "element_id pg el = (case id_attribute pg el of None \<Rightarrow> [] | Some i \<Rightarrow> i)"

text \<open>A registered listener \<^verbatim>\<open>() => this.logStatus(position, id)\<close>: the closure's two
  captured values, and the \<^verbatim>\<open>once\<close> option it was registered with. It listens to the
  event type \<open>events position\<close>.\<close>

record listener =
  lposition :: position
  lid :: string
  once :: bool

text \<open>One call of a listener: the element it was registered on, the position it logs, and
  the line it hands to \<^verbatim>\<open>console.log\<close>.\<close>

record notification =
  target :: elem
  pos :: position
  line :: string

record logger =
  columns :: "elem list"
  scrollDirection :: "direction option"
  lastScrollStart :: "real option"
  listeners :: "elem \<Rightarrow> listener list"
  notifications :: "notification list"

subsection \<open>Operations\<close>

text \<open>The types of the three events of the field \<^verbatim>\<open>events\<close>.\<close>

fun events :: "position \<Rightarrow> string" where
  "events Start = ''columnStartVisible''"
| "events Center = ''columnCenterVisible''"
| "events End = ''columnEndVisible''"

fun logStatus :: "position \<Rightarrow> string \<Rightarrow> string" where
  "logStatus Start i = ''Column with id:'' @ i @ '' started to become visible on the page.''"
| "logStatus Center i = ''Column with id:'' @ i @ '' is now more than 50% visible on the page.''"
| "logStatus End i = ''Column with id:'' @ i @ '' is now fully visible on the page.''"

text \<open>\<^verbatim>\<open>el.addEventListener(type, callback, { once: true })\<close>: the listener goes to the end of
  the element's list.\<close>

definition addEventListener :: "elem \<Rightarrow> listener \<Rightarrow> logger \<Rightarrow> logger" where
  "addEventListener el l s = s\<lparr>listeners := (listeners s)(el := listeners s el @ [l])\<rparr>"

text \<open>\<^verbatim>\<open>el.dispatchEvent(ev)\<close> for an event of type \<open>ty\<close>. The events are created without
  \<^verbatim>\<open>bubbles\<close>, so only the listeners of the target run: each listener of that type, in order
  of registration, and a \<^verbatim>\<open>once\<close> listener is removed as it runs.\<close>

definition dispatchEvent :: "elem \<Rightarrow> string \<Rightarrow> logger \<Rightarrow> logger" where
  "dispatchEvent el ty s =
     (let ls = listeners s el;
          run = filter (\<lambda>l. events (lposition l) = ty) ls;
          keep = filter (\<lambda>l. \<not> (events (lposition l) = ty \<and> once l)) ls
      in s\<lparr>listeners := (listeners s)(el := keep),
            notifications := notifications s @
              map (\<lambda>l. \<lparr>target = el, pos = lposition l, line = logStatus (lposition l) (lid l)\<rparr>) run\<rparr>)"

fun getColumns_each :: "page \<Rightarrow> elem list \<Rightarrow> logger \<Rightarrow> logger" where
  "getColumns_each pg [] s = s"
| "getColumns_each pg (el # els) s =
     (let i = element_id pg el;
          s1 = addEventListener el \<lparr>lposition = Start, lid = i, once = True\<rparr> s;
          s2 = addEventListener el \<lparr>lposition = Center, lid = i, once = True\<rparr> s1;
          s3 = addEventListener el \<lparr>lposition = End, lid = i, once = True\<rparr> s2
      in getColumns_each pg els s3)"

definition getColumns :: "page \<Rightarrow> logger \<Rightarrow> elem list \<times> logger" where
  "getColumns pg s =
     (let cols = querySelectorAll_column pg in (cols, getColumns_each pg cols s))"

text \<open>The field initialisers and the constructor. No listener and no output exist before.\<close>

definition ColumnScrollLogger :: "page \<Rightarrow> logger" where
  "ColumnScrollLogger pg =
     (let s0 = \<lparr>columns = [], scrollDirection = None, lastScrollStart = None,
                listeners = (\<lambda>_. []), notifications = []\<rparr>;
          (cols, s1) = getColumns pg s0
      in s1\<lparr>columns := cols\<rparr>)"

text \<open>\<^verbatim>\<open>window.pageYOffset || document.documentElement.scrollTop\<close>.\<close>

definition scrollOffset :: "host \<Rightarrow> real" where
  "scrollOffset h = (if pageYOffset h \<noteq> 0 then pageYOffset h else scrollTop h)"

text \<open>\<^verbatim>\<open>st > this.lastScrollStart\<close> converts \<^verbatim>\<open>null\<close> to the number 0.\<close>

definition getScrollDirection :: "host \<Rightarrow> logger \<Rightarrow> logger" where
  "getScrollDirection h s =
     (let st = scrollOffset h;
          s1 = (if st > (case lastScrollStart s of None \<Rightarrow> 0 | Some l \<Rightarrow> l)
                then s\<lparr>scrollDirection := Some Down\<rparr>
                else s\<lparr>scrollDirection := Some Up\<rparr>)
      in s1\<lparr>lastScrollStart := Some (if st \<le> 0 then 0 else st)\<rparr>)"

text \<open>\<^verbatim>\<open>isHidden(el)\<close>, called with room for \<open>frames\<close> nested calls of it on the call stack.
  With no room the call throws; otherwise it takes one frame, and the call on the parent
  has one frame less.\<close>

fun isHidden :: "nat \<Rightarrow> host \<Rightarrow> elem \<Rightarrow> error + jsval" where
  "isHidden 0 h el = Inl RangeError"
| "isHidden (Suc frames) h el =
     (case getComputedStyle h el of
        None \<Rightarrow> Inl HostError
      | Some display \<Rightarrow>
          (let isHidden' = (display = ''none'');
               parent = parentElement h el
           in if isHidden' then Inr JTrue
              else (case parent of
                      Some p \<Rightarrow> isHidden frames h p
                    | None \<Rightarrow> Inr JUndefined)))"

record visibility =
  isStartVisible :: bool
  isCenterVisible :: bool
  isEndVisible :: bool

text \<open>The object \<^verbatim>\<open>predictates\<close>, read at a direction.\<close>

fun predictates :: "real \<Rightarrow> real \<Rightarrow> real \<Rightarrow> real \<Rightarrow> direction \<Rightarrow> visibility" where
  "predictates viewportHeight colStart colCenter colEnd Down =
     \<lparr>isStartVisible = (0 < colStart \<and> colStart < viewportHeight),
      isCenterVisible = (0 < colCenter \<and> colCenter < viewportHeight),
      isEndVisible = (0 < colEnd \<and> colEnd < viewportHeight)\<rparr>"
| "predictates viewportHeight colStart colCenter colEnd Up =
     \<lparr>isStartVisible = (0 < colEnd \<and> colEnd < viewportHeight),
      isCenterVisible = (0 < colCenter \<and> colCenter < viewportHeight),
      isEndVisible = (0 < colStart \<and> colStart < viewportHeight)\<rparr>"

text \<open>The three conditional dispatches, for an element that is visible.\<close>

definition fire :: "elem \<Rightarrow> visibility \<Rightarrow> logger \<Rightarrow> logger" where
  "fire el p s =
     (let s1 = (if isStartVisible p then dispatchEvent el (events Start) s else s);
          s2 = (if isCenterVisible p then dispatchEvent el (events Center) s1 else s1);
          s3 = (if isEndVisible p then dispatchEvent el (events End) s2 else s2)
      in s3)"

text \<open>The callback of \<^verbatim>\<open>this.columns.forEach\<close>. It throws before it changes anything:
  \<open>Inl\<close> is an exception, raised in the state the callback was entered in. Reading
  \<^verbatim>\<open>predictates[null]\<close> gives \<^verbatim>\<open>undefined\<close>, and a property of that is a \<^verbatim>\<open>TypeError\<close>.\<close>

definition checkColumn :: "host \<Rightarrow> elem \<Rightarrow> logger \<Rightarrow> error + logger" where
  "checkColumn h el s =
     (let viewportHeight = innerHeight h in
      case getBoundingClientRect h el of
        None \<Rightarrow> Inl HostError
      | Some r \<Rightarrow>
          (let colStart = top_rect r;
               colCenter = toDouble h (colStart + toDouble h (height_rect r / 2));
               colEnd = bottom_rect r
           in case isHidden (stackFrames h) h el of
                Inl e \<Rightarrow> Inl e
              | Inr hidden \<Rightarrow>
                  (let isVisible = \<not> truthy hidden in
                   if isVisible then
                     (case scrollDirection s of
                        None \<Rightarrow> Inl TypeError
                      | Some d \<Rightarrow>
                          Inr (fire el
                            (predictates viewportHeight colStart colCenter colEnd d) s))
                   else Inr s)))"

text \<open>\<^verbatim>\<open>forEach\<close>: an exception in the callback ends the loop and leaves it.\<close>

fun forEach :: "(elem \<Rightarrow> logger \<Rightarrow> error + logger) \<Rightarrow> elem list \<Rightarrow> logger
    \<Rightarrow> error option \<times> logger" where
  "forEach f [] s = (None, s)"
| "forEach f (el # els) s =
     (case f el s of
        Inl e \<Rightarrow> (Some e, s)
      | Inr s' \<Rightarrow> forEach f els s')"

text \<open>One call of the handler: whether it threw, and the state it left.\<close>

definition checkColumnPosition :: "host \<Rightarrow> logger \<Rightarrow> error option \<times> logger" where
  "checkColumnPosition h s =
     (let s1 = getScrollDirection h s in forEach (checkColumn h) (columns s1) s1)"

text \<open>A sequence of scroll and resize signals, each with the host as it is then. An
  exception that leaves a handler is reported by the browser and the next signal is
  handled as usual.\<close>

fun signals :: "host list \<Rightarrow> logger \<Rightarrow> logger" where
  "signals [] s = s"
| "signals (h # hs) s = signals hs (snd (checkColumnPosition h s))"

subsection \<open>Notions of the specification\<close>

text \<open>The containment test of the specification: the open interval from 0 to the height of
  the viewport.\<close>

definition within_viewport :: "real \<Rightarrow> real \<Rightarrow> bool" where
  "within_viewport viewportHeight x = (0 < x \<and> x < viewportHeight)"

text \<open>The specification's table of the point of an element that stands for a position, by
  direction. The center is top + height / 2 as JavaScript computes it, each of the two
  results rounded to a double.\<close>

fun mapped_point :: "host \<Rightarrow> direction \<Rightarrow> position \<Rightarrow> rect \<Rightarrow> real" where
  "mapped_point h Down Start r = top_rect r"
| "mapped_point h Down Center r = toDouble h (top_rect r + toDouble h (height_rect r / 2))"
| "mapped_point h Down End r = bottom_rect r"
| "mapped_point h Up Start r = bottom_rect r"
| "mapped_point h Up Center r = toDouble h (top_rect r + toDouble h (height_rect r / 2))"
| "mapped_point h Up End r = top_rect r"

text \<open>The flag of \<^verbatim>\<open>predictates\<close> that guards the dispatch for a position, and the flags the
  callback computes for a rectangle.\<close>

fun visible_at :: "visibility \<Rightarrow> position \<Rightarrow> bool" where
  "visible_at p Start = isStartVisible p"
| "visible_at p Center = isCenterVisible p"
| "visible_at p End = isEndVisible p"

definition column_flags :: "host \<Rightarrow> rect \<Rightarrow> direction \<Rightarrow> visibility" where
  "column_flags h r d =
     predictates (innerHeight h) (top_rect r)
       (toDouble h (top_rect r + toDouble h (height_rect r / 2))) (bottom_rect r) d"

text \<open>An element is hidden when its own computed display is \<^verbatim>\<open>none\<close>, or its parent is
  hidden.\<close>

inductive hidden :: "host \<Rightarrow> elem \<Rightarrow> bool" for h :: host where
  own: "getComputedStyle h el = Some ''none'' \<Longrightarrow> hidden h el"
| ancestor: "parentElement h el = Some p \<Longrightarrow> hidden h p \<Longrightarrow> hidden h el"

text \<open>The chain of parents of an element ends: the element and its ancestors are \<open>n\<close>
  elements, and the computed style of each of them can be read.\<close>

inductive finite_chain :: "host \<Rightarrow> elem \<Rightarrow> nat \<Rightarrow> bool" for h :: host where
  root: "getComputedStyle h el = Some d \<Longrightarrow> parentElement h el = None \<Longrightarrow>
         finite_chain h el (Suc 0)"
| child: "getComputedStyle h el = Some d \<Longrightarrow> parentElement h el = Some p \<Longrightarrow>
          finite_chain h p n \<Longrightarrow> finite_chain h el (Suc n)"

text \<open>How often the listener of a position has run on an element, and how many listeners
  of that position the element still has.\<close>

definition delivered :: "logger \<Rightarrow> elem \<Rightarrow> position \<Rightarrow> nat" where
  "delivered s el p = length (filter (\<lambda>n. target n = el \<and> pos n = p) (notifications s))"

definition armed :: "logger \<Rightarrow> elem \<Rightarrow> position \<Rightarrow> nat" where
  "armed s el p = length (filter (\<lambda>l. lposition l = p) (listeners s el))"

subsection \<open>Example documents and hosts\<close>

text \<open>Two columns, the second without an \<^verbatim>\<open>id\<close> attribute; a document with the second
  column alone; and one with a third column, element 3.\<close>

definition two_columns :: page where
  "two_columns = \<lparr>querySelectorAll_column = [0, 1],
     id_attribute = (\<lambda>el. if el = 0 then Some ''intro'' else None)\<rparr>"

definition one_column :: page where
  "one_column = \<lparr>querySelectorAll_column = [1], id_attribute = (\<lambda>el. None)\<rparr>"


text \<open>A viewport 800 high, scrolled by 10. Column 0 lies inside it; column 1 begins above
  it and ends inside it. Both are children of element 2, which has no parent. The
  examples compute with small integers only, which are doubles: their results need no
  rounding, and the example hosts round nothing. The call stack has room for 10000 nested
  calls.\<close>

definition scrolled_host :: host where
  "scrolled_host = \<lparr>pageYOffset = 10, scrollTop = 10, innerHeight = 800,
     getBoundingClientRect = (\<lambda>el. Some (if el = 0
        then \<lparr>top_rect = 100, height_rect = 200, bottom_rect = 300\<rparr>
        else \<lparr>top_rect = - 50, height_rect = 200, bottom_rect = 150\<rparr>)),
     getComputedStyle = (\<lambda>el. Some ''block''),
     parentElement = (\<lambda>el. if el < 2 then Some 2 else None),
     toDouble = (\<lambda>x. x),
     stackFrames = 10000\<rparr>"

text \<open>The same, with the page pulled one pixel beyond its top.\<close>

definition overscrolled_host :: host where
  "overscrolled_host = scrolled_host\<lparr>pageYOffset := - 1\<rparr>"

text \<open>The same viewport with element 2, the parent of both columns, not displayed.\<close>

definition hidden_host :: host where
  "hidden_host = scrolled_host\<lparr>getComputedStyle :=
     (\<lambda>el. Some (if el = 2 then ''none'' else ''block''))\<rparr>"


text \<open>The same viewport with every column's top exactly on the top edge of the viewport.\<close>

definition edge_host :: host where
  "edge_host = scrolled_host\<lparr>getBoundingClientRect :=
     (\<lambda>el. Some \<lparr>top_rect = 0, height_rect = 200, bottom_rect = 200\<rparr>)\<rparr>"

text \<open>The same viewport with a deep document: the parent of element \<open>el\<close> is element
  \<open>el + 1\<close>, up to element 12000, which has none. Every element is displayed.\<close>

definition deep_host :: host where
  "deep_host = scrolled_host\<lparr>parentElement :=
     (\<lambda>el. if el < 12000 then Some (Suc el) else None)\<rparr>"

subsection \<open>Invariants of the listeners\<close>

text \<open>Every registered listener is a \<^verbatim>\<open>once\<close> listener.\<close>

definition all_once :: "logger \<Rightarrow> bool" where
  "all_once s = (\<forall>el. \<forall>l\<in>set (listeners s el). once l)"

text \<open>Every listener carries the identifier its element had at construction, and every
  line logged is the message of its position for that identifier.\<close>

definition ids_kept :: "page \<Rightarrow> logger \<Rightarrow> bool" where
  "ids_kept pg s = (\<forall>el. \<forall>l\<in>set (listeners s el). lid l = element_id pg el)"

definition lines_kept :: "page \<Rightarrow> logger \<Rightarrow> bool" where
  "lines_kept pg s =
     (\<forall>n\<in>set (notifications s). line n = logStatus (pos n) (element_id pg (target n)))"

subsection \<open>Fields the operations keep\<close>

lemma events_inj [simp]: "(events p = events q) = (p = q)"
  by (cases p; cases q) simp_all

lemma dispatchEvent_fields [simp]:
  "columns (dispatchEvent el ty s) = columns s"
  "scrollDirection (dispatchEvent el ty s) = scrollDirection s"
  "lastScrollStart (dispatchEvent el ty s) = lastScrollStart s"
  by (simp_all add: dispatchEvent_def Let_def)

lemma fire_fields [simp]:
  "columns (fire el p s) = columns s"
  "scrollDirection (fire el p s) = scrollDirection s"
  "lastScrollStart (fire el p s) = lastScrollStart s"
  by (simp_all add: fire_def Let_def)

lemma checkColumn_fields:
  assumes "checkColumn h el s = Inr s'"
  shows "columns s' = columns s \<and> scrollDirection s' = scrollDirection s
         \<and> lastScrollStart s' = lastScrollStart s"
  using assms
  by (auto simp: checkColumn_def Let_def split: option.splits sum.splits if_splits)

lemma forEach_fields:
  assumes "forEach (checkColumn h) els s = (res, s')"
  shows "columns s' = columns s \<and> scrollDirection s' = scrollDirection s
         \<and> lastScrollStart s' = lastScrollStart s"
  using assms
proof (induction els arbitrary: s)
  case Nil
  then show ?case by simp
next
  case (Cons el els)
  then show ?case
    by (auto split: sum.splits dest!: checkColumn_fields)
qed

lemma getScrollDirection_fields [simp]:
  "columns (getScrollDirection h s) = columns s"
  "listeners (getScrollDirection h s) = listeners s"
  "notifications (getScrollDirection h s) = notifications s"
  "lastScrollStart (getScrollDirection h s) = Some (max 0 (scrollOffset h))"
  by (simp_all add: getScrollDirection_def Let_def max_def)

lemma scrollDirection_getScrollDirection: "scrollDirection (getScrollDirection h s) \<noteq> None"
  by (simp add: getScrollDirection_def Let_def)

lemma addEventListener_fields [simp]:
  "columns (addEventListener el l s) = columns s"
  "scrollDirection (addEventListener el l s) = scrollDirection s"
  "lastScrollStart (addEventListener el l s) = lastScrollStart s"
  "notifications (addEventListener el l s) = notifications s"
  by (simp_all add: addEventListener_def)

lemma getColumns_each_fields:
  "scrollDirection (getColumns_each pg els s) = scrollDirection s"
  "lastScrollStart (getColumns_each pg els s) = lastScrollStart s"
  "notifications (getColumns_each pg els s) = notifications s"
  by (induction els arbitrary: s) (simp_all add: Let_def)

lemma ColumnScrollLogger_fields [simp]:
  "columns (ColumnScrollLogger pg) = querySelectorAll_column pg"
  "scrollDirection (ColumnScrollLogger pg) = None"
  "lastScrollStart (ColumnScrollLogger pg) = None"
  "notifications (ColumnScrollLogger pg) = []"
  by (simp_all add: ColumnScrollLogger_def getColumns_def Let_def getColumns_each_fields)

subsection \<open>What a dispatch does\<close>

lemma dispatchEvent_events:
  "notifications (dispatchEvent el (events q) s) =
     notifications s @ map (\<lambda>l. \<lparr>target = el, pos = q, line = logStatus q (lid l)\<rparr>)
        (filter (\<lambda>l. lposition l = q) (listeners s el))"
  by (simp add: dispatchEvent_def Let_def cong: map_cong)

lemma dispatchEvent_events_listeners:
  "listeners (dispatchEvent el (events q) s) =
     (listeners s)(el := filter (\<lambda>l. \<not> (lposition l = q \<and> once l)) (listeners s el))"
  by (simp add: dispatchEvent_def Let_def)

lemma delivered_dispatchEvent:
  "delivered (dispatchEvent e (events q) s) el p =
     delivered s el p + (if e = el \<and> q = p then armed s el p else 0)"
  by (simp add: delivered_def armed_def dispatchEvent_events filter_map comp_def
      del: events.simps)

lemma armed_dispatchEvent_other:
  assumes "e \<noteq> el \<or> q \<noteq> p"
  shows "armed (dispatchEvent e (events q) s) el p = armed s el p"
proof (cases "e = el")
  case True
  with assms have "q \<noteq> p" by simp
  then have "filter (\<lambda>l. lposition l = p)
      (filter (\<lambda>l. \<not> (lposition l = q \<and> once l)) (listeners s el)) =
      filter (\<lambda>l. lposition l = p) (listeners s el)"
    by (auto intro: filter_cong)
  with True show ?thesis
    by (simp add: armed_def dispatchEvent_events_listeners del: events.simps)
next
  case False
  then show ?thesis
    by (simp add: armed_def dispatchEvent_events_listeners del: events.simps)
qed

lemma armed_dispatchEvent:
  assumes "\<forall>l\<in>set (listeners s e). once l"
  shows "armed (dispatchEvent e (events q) s) el p =
     (if e = el \<and> q = p then 0 else armed s el p)"
proof (cases "e = el \<and> q = p")
  case True
  with assms have "filter (\<lambda>l. lposition l = p)
      (filter (\<lambda>l. \<not> (lposition l = q \<and> once l)) (listeners s el)) = []"
    by (auto simp: filter_empty_conv)
  with True show ?thesis
    by (simp add: armed_def dispatchEvent_events_listeners del: events.simps)
next
  case False
  then have "e \<noteq> el \<or> q \<noteq> p" by blast
  from armed_dispatchEvent_other [OF this] False show ?thesis by auto
qed

text \<open>The three dispatches of \<open>fire\<close>: the notifications of a position grow by the
  listeners of that position, if the flag of that position holds.\<close>

lemma delivered_fire:
  "delivered (fire el f s) e p =
     delivered s e p + (if e = el \<and> visible_at f p then armed s el p else 0)"
  by (cases p)
     (simp_all add: fire_def Let_def delivered_dispatchEvent armed_dispatchEvent_other
        del: events.simps)

lemma fire_new:
  "\<exists>new. notifications (fire el p s) = notifications s @ new
     \<and> (\<forall>n\<in>set new. target n = el \<and> visible_at p (pos n))"
  by (auto simp: fire_def Let_def dispatchEvent_events simp del: events.simps)

lemma fire_listeners_other:
  "x \<noteq> el \<Longrightarrow> listeners (fire el p s) x = listeners s x"
  by (simp add: fire_def Let_def dispatchEvent_events_listeners del: events.simps)

subsection \<open>The hidden test\<close>

lemma truthy_iff: "truthy v \<longleftrightarrow> v = JTrue"
  by (cases v) simp_all

lemma not_JTrue: "(v \<noteq> JTrue) = (v = JUndefined)"
  by (cases v) simp_all

lemma isHidden_unfold:
  "isHidden frames h el =
     (if frames = 0 then Inl RangeError
      else case getComputedStyle h el of
             None \<Rightarrow> Inl HostError
           | Some display \<Rightarrow>
               if display = ''none'' then Inr JTrue
               else (case parentElement h el of
                       Some p \<Rightarrow> isHidden (frames - 1) h p
                     | None \<Rightarrow> Inr JUndefined))"
  by (cases frames) (simp_all add: Let_def split: option.splits)

lemma hidden_root:
  "parentElement h el = None \<Longrightarrow> hidden h el \<longleftrightarrow> getComputedStyle h el = Some ''none''"
  by (auto elim: hidden.cases intro: hidden.own)

lemma hidden_child:
  "parentElement h el = Some p \<Longrightarrow>
     hidden h el \<longleftrightarrow> getComputedStyle h el = Some ''none'' \<or> hidden h p"
  by (auto elim: hidden.cases intro: hidden.intros)

text \<open>On a hidden element the test never answers \<^verbatim>\<open>undefined\<close>: it answers \<^verbatim>\<open>true\<close>, or it
  throws before it reaches the element that is not displayed.\<close>

lemma isHidden_hidden:
  assumes "hidden h el"
  shows "isHidden frames h el \<noteq> Inr JUndefined"
  using assms
proof (induction arbitrary: frames rule: hidden.induct)
  case (own el)
  then show ?case by (cases frames) simp_all
next
  case (ancestor el p)
  show ?case
  proof (cases frames)
    case 0
    then show ?thesis by simp
  next
    case (Suc k)
    with ancestor(1) ancestor(3) [of k] show ?thesis
      by (simp add: Let_def split: option.splits)
  qed
qed

lemma isHidden_finite_chain:
  assumes "finite_chain h el n" and "n \<le> frames"
  shows "\<exists>v. isHidden frames h el = Inr v \<and> (v = JTrue \<longleftrightarrow> hidden h el)"
  using assms
proof (induction arbitrary: frames rule: finite_chain.induct)
  case (root el d)
  then obtain k where "frames = Suc k" by (cases frames) auto
  with root show ?case by (simp add: hidden_root)
next
  case (child el d p n)
  then obtain k where k: "frames = Suc k" "n \<le> k" by (cases frames) auto
  with child.IH obtain v where "isHidden k h p = Inr v" "v = JTrue \<longleftrightarrow> hidden h p"
    by blast
  with child(1,2) k show ?case by (auto simp: hidden_child Let_def)
qed

lemma isHidden_overflow:
  assumes "finite_chain h el n" and "\<not> hidden h el" and "frames < n"
  shows "isHidden frames h el = Inl RangeError"
  using assms
proof (induction arbitrary: frames rule: finite_chain.induct)
  case (root el d)
  then show ?case by simp
next
  case (child el d p n)
  show ?case
  proof (cases frames)
    case 0
    then show ?thesis by simp
  next
    case (Suc k)
    from child.prems(1) child(2) have nh: "\<not> hidden h p" "d \<noteq> ''none''"
      using child(1) by (auto simp: hidden_child)
    from Suc child.prems(2) have "k < n" by simp
    with child.IH nh(1) have "isHidden k h p = Inl RangeError" by blast
    with Suc child(1,2) nh(2) show ?thesis by (simp add: Let_def)
  qed
qed

subsection \<open>What a check cycle can deliver\<close>

lemma visible_at_column_flags:
  "visible_at (column_flags h r d) p = within_viewport (innerHeight h) (mapped_point h d p r)"
  by (cases d; cases p) (simp_all add: column_flags_def within_viewport_def)

lemma checkColumn_visible:
  assumes "getBoundingClientRect h el = Some r"
    and "isHidden (stackFrames h) h el = Inr JUndefined"
    and "scrollDirection s = Some d"
  shows "checkColumn h el s = Inr (fire el (column_flags h r d) s)"
  using assms by (simp add: checkColumn_def column_flags_def Let_def)

lemma checkColumn_cases:
  assumes "checkColumn h el s = Inr s'"
  shows "s' = s \<or>
     (\<exists>r d. getBoundingClientRect h el = Some r \<and> scrollDirection s = Some d \<and>
        isHidden (stackFrames h) h el = Inr JUndefined \<and> s' = fire el (column_flags h r d) s)"
  using assms
  by (auto simp: checkColumn_def column_flags_def Let_def truthy_iff not_JTrue
      split: option.splits sum.splits if_splits)

lemma checkColumn_new:
  assumes "checkColumn h el s = Inr s'"
  shows "\<exists>new. notifications s' = notifications s @ new \<and>
     (\<forall>n\<in>set new. target n = el \<and>
        (\<exists>r d. getBoundingClientRect h el = Some r \<and> scrollDirection s = Some d \<and>
           isHidden (stackFrames h) h el = Inr JUndefined \<and>
           visible_at (column_flags h r d) (pos n)))"
  using checkColumn_cases [OF assms]
proof
  assume "s' = s"
  then show ?thesis by simp
next
  assume "\<exists>r d. getBoundingClientRect h el = Some r \<and> scrollDirection s = Some d \<and>
        isHidden (stackFrames h) h el = Inr JUndefined \<and> s' = fire el (column_flags h r d) s"
  then obtain r d where rd: "getBoundingClientRect h el = Some r" "scrollDirection s = Some d"
      "isHidden (stackFrames h) h el = Inr JUndefined" "s' = fire el (column_flags h r d) s"
    by blast
  with fire_new [of el "column_flags h r d" s] show ?thesis by auto
qed

lemma checkColumn_listeners_other:
  assumes "checkColumn h el s = Inr s'" and "x \<noteq> el"
  shows "listeners s' x = listeners s x"
  using checkColumn_cases [OF assms(1)] assms(2)
  by (auto simp: fire_listeners_other)

lemma checkColumn_hidden:
  assumes "hidden h el" and "checkColumn h el s = Inr s'"
  shows "s' = s"
  using checkColumn_cases [OF assms(2)] isHidden_hidden [OF assms(1), of "stackFrames h"]
  by auto

lemma forEach_step:
  assumes "forEach f (el # els) s = (res, s')"
  shows "(\<exists>e. f el s = Inl e \<and> res = Some e \<and> s' = s)
     \<or> (\<exists>s1. f el s = Inr s1 \<and> forEach f els s1 = (res, s'))"
  using assms by (auto split: sum.splits)

lemma forEach_new:
  assumes "forEach (checkColumn h) els s = (res, s')"
  shows "\<exists>new. notifications s' = notifications s @ new \<and>
     (\<forall>n\<in>set new. target n \<in> set els \<and>
        (\<exists>r d. getBoundingClientRect h (target n) = Some r \<and> scrollDirection s = Some d \<and>
           isHidden (stackFrames h) h (target n) = Inr JUndefined \<and>
           visible_at (column_flags h r d) (pos n)))"
  using assms
proof (induction els arbitrary: s)
  case Nil
  then show ?case by simp
next
  case (Cons el els)
  from forEach_step [OF Cons.prems] show ?case
  proof
    assume "\<exists>e. checkColumn h el s = Inl e \<and> res = Some e \<and> s' = s"
    then have "s' = s" by blast
    then show ?thesis by simp
  next
    assume "\<exists>s1. checkColumn h el s = Inr s1 \<and> forEach (checkColumn h) els s1 = (res, s')"
    then obtain s1 where step: "checkColumn h el s = Inr s1"
      and rest: "forEach (checkColumn h) els s1 = (res, s')"
      by blast
    from checkColumn_fields [OF step] have d: "scrollDirection s1 = scrollDirection s" by simp
    from checkColumn_new [OF step] obtain new1 where new1:
      "notifications s1 = notifications s @ new1"
      "\<forall>n\<in>set new1. target n = el \<and>
        (\<exists>r d. getBoundingClientRect h el = Some r \<and> scrollDirection s = Some d \<and>
           isHidden (stackFrames h) h el = Inr JUndefined \<and>
           visible_at (column_flags h r d) (pos n))"
      by blast
    from Cons.IH [OF rest] obtain new2 where new2:
      "notifications s' = notifications s1 @ new2"
      "\<forall>n\<in>set new2. target n \<in> set els \<and>
        (\<exists>r d. getBoundingClientRect h (target n) = Some r \<and> scrollDirection s1 = Some d \<and>
           isHidden (stackFrames h) h (target n) = Inr JUndefined \<and>
           visible_at (column_flags h r d) (pos n))"
      by blast
    have "notifications s' = notifications s @ (new1 @ new2)"
      using new1(1) new2(1) by simp
    moreover have "\<forall>n\<in>set (new1 @ new2). target n \<in> set (el # els) \<and>
        (\<exists>r d. getBoundingClientRect h (target n) = Some r \<and> scrollDirection s = Some d \<and>
           isHidden (stackFrames h) h (target n) = Inr JUndefined \<and>
           visible_at (column_flags h r d) (pos n))"
      using new1(2) new2(2) d by auto
    ultimately show ?thesis by blast
  qed
qed

lemma forEach_hidden_listeners:
  assumes "hidden h x" and "forEach (checkColumn h) els s = (res, s')"
  shows "listeners s' x = listeners s x"
  using assms(2)
proof (induction els arbitrary: s)
  case Nil
  then show ?case by simp
next
  case (Cons el els)
  from forEach_step [OF Cons.prems] show ?case
  proof
    assume "\<exists>e. checkColumn h el s = Inl e \<and> res = Some e \<and> s' = s"
    then have "s' = s" by blast
    then show ?thesis by simp
  next
    assume "\<exists>s1. checkColumn h el s = Inr s1 \<and> forEach (checkColumn h) els s1 = (res, s')"
    then obtain s1 where step: "checkColumn h el s = Inr s1"
      and rest: "forEach (checkColumn h) els s1 = (res, s')"
      by blast
    have "listeners s1 x = listeners s x"
    proof (cases "x = el")
      case True
      with assms(1) step checkColumn_hidden show ?thesis by blast
    next
      case False
      with step checkColumn_listeners_other show ?thesis by blast
    qed
    with Cons.IH [OF rest] show ?thesis by simp
  qed
qed

subsection \<open>Properties kept by every signal\<close>

lemma fire_invariant:
  assumes step: "\<And>el q s. P s \<Longrightarrow> P (dispatchEvent el (events q) s)"
    and "P s"
  shows "P (fire el p s)"
  using assms(2) by (simp add: fire_def Let_def step del: events.simps)

lemma checkColumn_invariant:
  assumes step: "\<And>el q s. P s \<Longrightarrow> P (dispatchEvent el (events q) s)"
    and "P s" and "checkColumn h el s = Inr s'"
  shows "P s'"
  using checkColumn_cases [OF assms(3)] assms(2) fire_invariant [of P, OF step]
  by auto

lemma forEach_invariant:
  assumes step: "\<And>el q s. P s \<Longrightarrow> P (dispatchEvent el (events q) s)"
    and "P s"
  shows "P (snd (forEach (checkColumn h) els s))"
  using assms(2)
proof (induction els arbitrary: s)
  case Nil
  then show ?case by simp
next
  case (Cons el els)
  show ?case
  proof (cases "checkColumn h el s")
    case (Inl e)
    with Cons.prems show ?thesis by simp
  next
    case (Inr s1)
    with checkColumn_invariant [of P, OF step Cons.prems] have "P s1" by blast
    with Cons.IH Inr show ?thesis by simp
  qed
qed

lemma signals_invariant:
  assumes step: "\<And>el q s. P s \<Longrightarrow> P (dispatchEvent el (events q) s)"
    and dir: "\<And>h s. P s \<Longrightarrow> P (getScrollDirection h s)"
    and "P s"
  shows "P (signals hs s)"
  using assms(3)
proof (induction hs arbitrary: s)
  case Nil
  then show ?case by simp
next
  case (Cons h hs)
  from forEach_invariant [of P, OF step dir [OF Cons.prems]]
  have "P (snd (checkColumnPosition h s))"
    by (simp add: checkColumnPosition_def Let_def)
  with Cons.IH show ?case by simp
qed

lemma all_once_dispatchEvent:
  "all_once s \<Longrightarrow> all_once (dispatchEvent e ty s)"
  by (auto simp: all_once_def dispatchEvent_def Let_def)

lemma latch_step:
  assumes "all_once s \<and> (\<forall>el p. delivered s el p + armed s el p \<le> 1)"
  shows "all_once (dispatchEvent e (events q) s) \<and>
     (\<forall>el p. delivered (dispatchEvent e (events q) s) el p
        + armed (dispatchEvent e (events q) s) el p \<le> 1)"
proof -
  from assms have o: "\<forall>l\<in>set (listeners s e). once l"
    by (simp add: all_once_def)
  have "delivered (dispatchEvent e (events q) s) el p
        + armed (dispatchEvent e (events q) s) el p = delivered s el p + armed s el p" for el p
    by (simp add: delivered_dispatchEvent armed_dispatchEvent [OF o])
  with assms show ?thesis
    by (simp add: all_once_dispatchEvent)
qed

lemma latch_dir:
  "delivered (getScrollDirection h s) el p = delivered s el p"
  "armed (getScrollDirection h s) el p = armed s el p"
  "all_once (getScrollDirection h s) = all_once s"
  by (simp_all add: delivered_def armed_def all_once_def)

lemma listeners_addEventListener:
  "listeners (addEventListener el l s) x = (if x = el then listeners s el @ [l] else listeners s x)"
  by (simp add: addEventListener_def)

lemma listeners_getColumns_each:
  "listeners (getColumns_each pg els s) x =
     listeners s x @ concat (map (\<lambda>el. if el = x then
        [\<lparr>lposition = Start, lid = element_id pg el, once = True\<rparr>,
         \<lparr>lposition = Center, lid = element_id pg el, once = True\<rparr>,
         \<lparr>lposition = End, lid = element_id pg el, once = True\<rparr>] else []) els)"
  by (induction els arbitrary: s) (simp_all add: Let_def listeners_addEventListener)

lemma listeners_ColumnScrollLogger:
  "listeners (ColumnScrollLogger pg) x =
     concat (map (\<lambda>el. if el = x then
        [\<lparr>lposition = Start, lid = element_id pg el, once = True\<rparr>,
         \<lparr>lposition = Center, lid = element_id pg el, once = True\<rparr>,
         \<lparr>lposition = End, lid = element_id pg el, once = True\<rparr>] else [])
       (querySelectorAll_column pg))"
  by (simp add: ColumnScrollLogger_def getColumns_def Let_def listeners_getColumns_each)

lemma concat_distinct:
  assumes "distinct els"
  shows "concat (map (\<lambda>el. if el = x then f el else []) els) = (if x \<in> set els then f x else [])"
  using assms by (induction els) auto

lemma armed_ColumnScrollLogger:
  assumes "distinct (querySelectorAll_column pg)"
  shows "armed (ColumnScrollLogger pg) el p = (if el \<in> set (querySelectorAll_column pg) then 1 else 0)"
  by (cases p) (simp_all add: armed_def listeners_ColumnScrollLogger concat_distinct [OF assms])

lemma all_once_ColumnScrollLogger: "all_once (ColumnScrollLogger pg)"
  by (auto simp: all_once_def listeners_ColumnScrollLogger split: if_splits)

lemma ids_kept_dispatchEvent:
  assumes "ids_kept pg s"
  shows "ids_kept pg (dispatchEvent e ty s)"
  using assms by (simp add: ids_kept_def dispatchEvent_def Let_def)

lemma lines_kept_dispatchEvent:
  assumes "ids_kept pg s" and "lines_kept pg s"
  shows "lines_kept pg (dispatchEvent e ty s)"
proof -
  have "line n = logStatus (pos n) (element_id pg (target n))"
    if "n \<in> set (notifications (dispatchEvent e ty s))" for n
  proof -
    from that consider "n \<in> set (notifications s)"
      | l where "l \<in> set (listeners s e)"
          "n = \<lparr>target = e, pos = lposition l, line = logStatus (lposition l) (lid l)\<rparr>"
      by (auto simp: dispatchEvent_def Let_def)
    then show ?thesis
    proof cases
      case 1
      with assms(2) show ?thesis by (simp add: lines_kept_def)
    next
      case 2
      with assms(1) have "lid l = element_id pg e" by (simp add: ids_kept_def)
      with 2 show ?thesis by simp
    qed
  qed
  then show ?thesis by (simp add: lines_kept_def)
qed

lemma log_line_step:
  assumes "ids_kept pg s \<and> lines_kept pg s"
  shows "ids_kept pg (dispatchEvent e (events q) s) \<and> lines_kept pg (dispatchEvent e (events q) s)"
  using assms ids_kept_dispatchEvent lines_kept_dispatchEvent by blast

lemma log_line_dir:
  "ids_kept pg (getScrollDirection h s) = ids_kept pg s"
  "lines_kept pg (getScrollDirection h s) = lines_kept pg s"
  by (simp_all add: ids_kept_def lines_kept_def)

lemma log_line_init:
  "ids_kept pg (ColumnScrollLogger pg) \<and> lines_kept pg (ColumnScrollLogger pg)"
proof -
  have "lid l = element_id pg el" if "l \<in> set (listeners (ColumnScrollLogger pg) el)" for l el
  proof -
    from that obtain x where "l \<in> set (if x = el then
        [\<lparr>lposition = Start, lid = element_id pg x, once = True\<rparr>,
         \<lparr>lposition = Center, lid = element_id pg x, once = True\<rparr>,
         \<lparr>lposition = End, lid = element_id pg x, once = True\<rparr>] else [])"
      unfolding listeners_ColumnScrollLogger by auto
    then show ?thesis by (cases "x = el") auto
  qed
  then show ?thesis by (simp add: ids_kept_def lines_kept_def)
qed

subsection \<open>Exceptions in a cycle\<close>



subsection \<open>The deep document\<close>

lemma finite_chain_deep_host:
  assumes "el \<le> 12000"
  shows "finite_chain deep_host el (Suc (12000 - el))"
  using assms
proof (induction "12000 - el" arbitrary: el)
  case 0
  then have "el = 12000" by simp
  then show ?case
    using finite_chain.root [of deep_host el "''block''"]
    by (simp add: deep_host_def scrolled_host_def)
next
  case (Suc k)
  then have lt: "el < 12000" and k: "k = 12000 - Suc el" by simp_all
  from Suc.hyps(1) [OF k] lt have "finite_chain deep_host (Suc el) (Suc (12000 - Suc el))"
    by simp
  with lt finite_chain.child [of deep_host el "''block''" "Suc el" "Suc (12000 - Suc el)"]
  have "finite_chain deep_host el (Suc (Suc (12000 - Suc el)))"
    by (simp add: deep_host_def scrolled_host_def)
  moreover from lt have "Suc (12000 - Suc el) = 12000 - el" by simp
  ultimately show ?case by simp
qed

lemma not_hidden_deep_host: "\<not> hidden deep_host el"
proof
  assume "hidden deep_host el"
  then show False
    by (induction rule: hidden.induct) (simp_all add: deep_host_def scrolled_host_def)
qed

lemmas cycle_defs = checkColumnPosition_def checkColumn_def isHidden_unfold Let_def
  getScrollDirection_def scrollOffset_def fire_def dispatchEvent_def
  ColumnScrollLogger_def getColumns_def addEventListener_def element_id_def

subsection \<open>Reference points and directions\<close>

text \<open>
  Claim C4. The point tested for a position depends on the direction. For a visible
  element, the callback delivers the notification of a position to the listeners the
  element still has for it if and only if the point of that position lies inside the
  viewport, and that point is: scrolling down, the top for start, the center for center
  and the bottom for end; scrolling up, the bottom for start, the center for center and
  the top for end. The center is top + height / 2 as JavaScript computes it. So turning
  from down to up exchanges the points of start and end and keeps that of center.
\<close>

theorem direction_maps_points:
  assumes "getBoundingClientRect h el = Some r"
    and "isHidden (stackFrames h) h el = Inr JUndefined"
  shows "(scrollDirection s = Some Down \<longrightarrow>
      (\<exists>s'. checkColumn h el s = Inr s'
         \<and> delivered s' el Start = delivered s el Start +
             (if within_viewport (innerHeight h) (top_rect r) then armed s el Start else 0)
         \<and> delivered s' el Center = delivered s el Center +
             (if within_viewport (innerHeight h)
                   (toDouble h (top_rect r + toDouble h (height_rect r / 2)))
              then armed s el Center else 0)
         \<and> delivered s' el End = delivered s el End +
             (if within_viewport (innerHeight h) (bottom_rect r) then armed s el End else 0)))
   \<and> (scrollDirection s = Some Up \<longrightarrow>
      (\<exists>s'. checkColumn h el s = Inr s'
         \<and> delivered s' el Start = delivered s el Start +
             (if within_viewport (innerHeight h) (bottom_rect r) then armed s el Start else 0)
         \<and> delivered s' el Center = delivered s el Center +
             (if within_viewport (innerHeight h)
                   (toDouble h (top_rect r + toDouble h (height_rect r / 2)))
              then armed s el Center else 0)
         \<and> delivered s' el End = delivered s el End +
             (if within_viewport (innerHeight h) (top_rect r) then armed s el End else 0)))"
proof -
  have "checkColumn h el s = Inr (fire el (column_flags h r d) s)
      \<and> delivered (fire el (column_flags h r d) s) el p = delivered s el p +
          (if within_viewport (innerHeight h) (mapped_point h d p r) then armed s el p else 0)"
    if "scrollDirection s = Some d" for d p
    using checkColumn_visible [OF assms that]
    by (simp add: delivered_fire visible_at_column_flags)
  from this [of Down Start] this [of Down Center] this [of Down End]
       this [of Up Start] this [of Up Center] this [of Up End]
  show ?thesis by simp
qed

theorem direction_maps_points_witness:
  "(\<exists>s'. checkColumn scrolled_host 1
            (getScrollDirection scrolled_host (ColumnScrollLogger one_column)) = Inr s'
       \<and> delivered s' 1 Start = 0 \<and> delivered s' 1 Center = 1 \<and> delivered s' 1 End = 1
       \<and> map pos (notifications s') = [Center, End])
   \<and> (\<exists>s'. checkColumn scrolled_host 1
            (getScrollDirection scrolled_host
              (getScrollDirection scrolled_host (ColumnScrollLogger one_column))) = Inr s'
       \<and> delivered s' 1 Start = 1 \<and> delivered s' 1 Center = 1 \<and> delivered s' 1 End = 0
       \<and> map pos (notifications s') = [Start, Center])"
proof -
  have r: "getBoundingClientRect scrolled_host 1 =
      Some \<lparr>top_rect = - 50, height_rect = 200, bottom_rect = 150\<rparr>"
    by (simp add: scrolled_host_def)
  have v: "isHidden (stackFrames scrolled_host) scrolled_host 1 = Inr JUndefined"
    by (simp add: isHidden_unfold scrolled_host_def)
  have down: "scrollDirection (getScrollDirection scrolled_host (ColumnScrollLogger one_column)) =
      Some Down"
    by (simp add: getScrollDirection_def scrollOffset_def scrolled_host_def Let_def)
  have up: "scrollDirection (getScrollDirection scrolled_host
      (getScrollDirection scrolled_host (ColumnScrollLogger one_column))) = Some Up"
    by (simp add: getScrollDirection_def scrollOffset_def scrolled_host_def Let_def)
  have a: "armed (ColumnScrollLogger one_column) (Suc 0) p = Suc 0" for p
    by (simp add: armed_ColumnScrollLogger one_column_def)
  have d: "delivered (ColumnScrollLogger one_column) (Suc 0) p = 0" for p
    by (simp add: delivered_def)
  have env: "innerHeight scrolled_host = 800" "toDouble scrolled_host = (\<lambda>x. x)"
    by (simp_all add: scrolled_host_def)
  have run_down: "\<exists>s'. checkColumn scrolled_host 1
      (getScrollDirection scrolled_host (ColumnScrollLogger one_column)) = Inr s'
      \<and> map pos (notifications s') = [Center, End]"
    by (simp add: cycle_defs scrolled_host_def one_column_def)
  have run_up: "\<exists>s'. checkColumn scrolled_host 1
      (getScrollDirection scrolled_host
        (getScrollDirection scrolled_host (ColumnScrollLogger one_column))) = Inr s'
      \<and> map pos (notifications s') = [Start, Center]"
    by (simp add: cycle_defs scrolled_host_def one_column_def)
  from direction_maps_points [OF r v,
      of "getScrollDirection scrolled_host (ColumnScrollLogger one_column)"]
    direction_maps_points [OF r v, of "getScrollDirection scrolled_host
      (getScrollDirection scrolled_host (ColumnScrollLogger one_column))"]
    down up run_down run_up
  show ?thesis
    by (auto simp: latch_dir a d env within_viewport_def)
qed

subsection \<open>Direction resolution\<close>

text \<open>
  Claim C5, as stated, at a negative offset. On the first call the stored offset is unset;
  with the page pulled beyond its top the offset read is - 1, the direction becomes up, and
  the offset is not 0. So "up if and only if st == 0" does not hold on the first call.
\<close>

theorem first_call_up_counterexample:
  "lastScrollStart (ColumnScrollLogger two_columns) = None
   \<and> scrollDirection (getScrollDirection overscrolled_host (ColumnScrollLogger two_columns)) = Some Up
   \<and> scrollOffset overscrolled_host \<noteq> 0"
  by (simp add: getScrollDirection_def scrollOffset_def overscrolled_host_def scrolled_host_def
      Let_def)

text \<open>
  Claim C5, amended. The stored offset is unset after construction and set after every
  direction resolution. While it is unset, the direction becomes down if and only if
  st > 0, and up if and only if st \<le> 0. Once it is set, the direction becomes down if and
  only if st is greater than the stored offset, and up otherwise, also when they are equal.
\<close>

theorem direction_resolution:
  "lastScrollStart (ColumnScrollLogger pg) = None
   \<and> lastScrollStart (getScrollDirection h s) \<noteq> None
   \<and> (lastScrollStart s = None \<longrightarrow>
        (scrollDirection (getScrollDirection h s) = Some Down \<longleftrightarrow> 0 < scrollOffset h)
      \<and> (scrollDirection (getScrollDirection h s) = Some Up \<longleftrightarrow> scrollOffset h \<le> 0))
   \<and> (\<forall>l. lastScrollStart s = Some l \<longrightarrow>
        (scrollDirection (getScrollDirection h s) = Some Down \<longleftrightarrow> l < scrollOffset h)
      \<and> (scrollDirection (getScrollDirection h s) = Some Up \<longleftrightarrow> scrollOffset h \<le> l))"
  by (auto simp: getScrollDirection_def Let_def)

theorem direction_resolution_witness:
  "scrollDirection (getScrollDirection scrolled_host (ColumnScrollLogger two_columns)) = Some Down
   \<and> scrollDirection (getScrollDirection scrolled_host
        (getScrollDirection scrolled_host (ColumnScrollLogger two_columns))) = Some Up"
proof -
  have o: "scrollOffset scrolled_host = 10"
    by (simp add: scrollOffset_def scrolled_host_def)
  have first: "lastScrollStart (ColumnScrollLogger two_columns) = None"
    by simp
  have later: "lastScrollStart (getScrollDirection scrolled_host (ColumnScrollLogger two_columns)) =
      Some 10"
    by (simp add: o)
  from direction_resolution [of two_columns scrolled_host "ColumnScrollLogger two_columns"]
       direction_resolution [of two_columns scrolled_host
         "getScrollDirection scrolled_host (ColumnScrollLogger two_columns)"]
       first later o
  show ?thesis by simp
qed

text \<open>
  Claim C6. After every direction resolution the stored offset is max(0, st), for the
  offset st read in that step; so it is after every call of the handler, whether it threw
  or not, and it is never negative.
\<close>

theorem stored_offset_clamped:
  "lastScrollStart (getScrollDirection h s) = Some (max 0 (scrollOffset h))
   \<and> (\<forall>res s'. checkColumnPosition h s = (res, s') \<longrightarrow>
         lastScrollStart s' = Some (max 0 (scrollOffset h))
         \<and> (\<exists>l. lastScrollStart s' = Some l \<and> 0 \<le> l))"
  by (auto simp: checkColumnPosition_def Let_def dest!: forEach_fields)

theorem stored_offset_clamped_witness:
  "\<exists>res s'. checkColumnPosition overscrolled_host (ColumnScrollLogger two_columns) = (res, s')
     \<and> lastScrollStart s' = Some 0"
proof -
  obtain res s' where
    r: "checkColumnPosition overscrolled_host (ColumnScrollLogger two_columns) = (res, s')"
    by (cases "checkColumnPosition overscrolled_host (ColumnScrollLogger two_columns)")
  have "scrollOffset overscrolled_host = - 1"
    by (simp add: scrollOffset_def overscrolled_host_def scrolled_host_def)
  with stored_offset_clamped [of overscrolled_host "ColumnScrollLogger two_columns"] r
  show ?thesis by simp
qed

subsection \<open>The containment test\<close>

text \<open>
  Claim C3. For every direction, rectangle and viewport height, the flag that guards a
  position is the test 0 < x < viewportHeight of the point mapped to that position, with
  both inequalities strict: a point equal to 0 or to the viewport height fails it. So a
  check cycle in which the point of a position lies exactly on an edge of the viewport
  delivers no notification of that position for the element; for example an element with
  top = 0 gets no start notification in a cycle scrolling down.
\<close>

theorem containment_open_interval:
  "(visible_at (predictates vh (top_rect r)
        (toDouble h (top_rect r + toDouble h (height_rect r / 2))) (bottom_rect r) d) p
      \<longleftrightarrow> 0 < mapped_point h d p r \<and> mapped_point h d p r < vh)
   \<and> (mapped_point h d p r = 0 \<or> mapped_point h d p r = vh \<longrightarrow>
      \<not> visible_at (predictates vh (top_rect r)
        (toDouble h (top_rect r + toDouble h (height_rect r / 2))) (bottom_rect r) d) p)
   \<and> (getBoundingClientRect h el = Some r \<longrightarrow> checkColumnPosition h s = (res, s') \<longrightarrow>
      scrollDirection s' = Some d \<longrightarrow>
      mapped_point h d p r = 0 \<or> mapped_point h d p r = innerHeight h \<longrightarrow>
      filter (\<lambda>n. target n = el \<and> pos n = p) (notifications s') =
      filter (\<lambda>n. target n = el \<and> pos n = p) (notifications s))"
proof -
  have test: "visible_at (predictates v (top_rect r)
        (toDouble h (top_rect r + toDouble h (height_rect r / 2))) (bottom_rect r) d) p
      \<longleftrightarrow> 0 < mapped_point h d p r \<and> mapped_point h d p r < v" for v
    by (cases d; cases p) simp_all
  have cycle: "filter (\<lambda>n. target n = el \<and> pos n = p) (notifications s') =
      filter (\<lambda>n. target n = el \<and> pos n = p) (notifications s)"
    if r: "getBoundingClientRect h el = Some r"
      and c: "checkColumnPosition h s = (res, s')"
      and d: "scrollDirection s' = Some d"
      and e: "mapped_point h d p r = 0 \<or> mapped_point h d p r = innerHeight h"
  proof -
    from c have f: "forEach (checkColumn h) (columns s) (getScrollDirection h s) = (res, s')"
      by (simp add: checkColumnPosition_def Let_def)
    from forEach_fields [OF f] d have d': "scrollDirection (getScrollDirection h s) = Some d"
      by simp
    from forEach_new [OF f] obtain new where new:
      "notifications s' = notifications (getScrollDirection h s) @ new"
      "\<forall>n\<in>set new. target n \<in> set (columns s) \<and>
         (\<exists>r d. getBoundingClientRect h (target n) = Some r \<and>
           scrollDirection (getScrollDirection h s) = Some d \<and>
           isHidden (stackFrames h) h (target n) = Inr JUndefined \<and>
           visible_at (column_flags h r d) (pos n))"
      by blast
    have "\<not> (target n = el \<and> pos n = p)" if "n \<in> set new" for n
    proof
      assume a: "target n = el \<and> pos n = p"
      from new(2) that a r d' have "visible_at (column_flags h r d) p"
        by fastforce
      with e show False
        by (auto simp: visible_at_column_flags within_viewport_def)
    qed
    then have "filter (\<lambda>n. target n = el \<and> pos n = p) new = []"
      by (simp add: filter_empty_conv)
    with new(1) show ?thesis by simp
  qed
  from test [of vh] cycle show ?thesis by auto
qed

theorem containment_open_interval_witness:
  "\<exists>res s'. checkColumnPosition edge_host (ColumnScrollLogger one_column) = (res, s')
     \<and> scrollDirection s' = Some Down
     \<and> filter (\<lambda>n. target n = 1 \<and> pos n = Start) (notifications s') = []"
proof -
  have r: "getBoundingClientRect edge_host 1 =
      Some \<lparr>top_rect = 0, height_rect = 200, bottom_rect = 200\<rparr>"
    by (simp add: edge_host_def)
  obtain res s' where
    c: "checkColumnPosition edge_host (ColumnScrollLogger one_column) = (res, s')"
    by (cases "checkColumnPosition edge_host (ColumnScrollLogger one_column)")
  from c have "forEach (checkColumn edge_host) (columns (ColumnScrollLogger one_column))
      (getScrollDirection edge_host (ColumnScrollLogger one_column)) = (res, s')"
    by (simp add: checkColumnPosition_def Let_def)
  from forEach_fields [OF this] have d: "scrollDirection s' = Some Down"
    by (simp add: getScrollDirection_def scrollOffset_def edge_host_def scrolled_host_def Let_def)
  from containment_open_interval [of 800 "\<lparr>top_rect = 0, height_rect = 200, bottom_rect = 200\<rparr>"
      edge_host Down Start 1 "ColumnScrollLogger one_column" res s'] r c d
  show ?thesis by simp
qed

subsection \<open>Hidden elements\<close>

text \<open>
  Claim C7. If a tracked element or one of its ancestors has computed display \<^verbatim>\<open>none\<close>
  during a check cycle, the cycle delivers no notification for that element, whatever its
  geometry, and leaves the element's listeners as they were, so that they can still run in
  a later cycle; the callback for that element, when it returns, returns the state
  unchanged.
\<close>

theorem hidden_suppresses:
  assumes "hidden h el" and "checkColumnPosition h s = (res, s')"
  shows "filter (\<lambda>n. target n = el) (notifications s') = filter (\<lambda>n. target n = el) (notifications s)
     \<and> listeners s' el = listeners s el
     \<and> (\<forall>s1 s2. checkColumn h el s1 = Inr s2 \<longrightarrow> s2 = s1)"
proof -
  from assms(2) have f: "forEach (checkColumn h) (columns s) (getScrollDirection h s) = (res, s')"
    by (simp add: checkColumnPosition_def Let_def)
  from forEach_new [OF f] obtain new where new:
    "notifications s' = notifications s @ new"
    "\<forall>n\<in>set new. isHidden (stackFrames h) h (target n) = Inr JUndefined"
    by auto
  from isHidden_hidden [OF assms(1), of "stackFrames h"] new(2)
  have "filter (\<lambda>n. target n = el) new = []"
    by (auto simp: filter_empty_conv)
  with new(1) have "filter (\<lambda>n. target n = el) (notifications s') =
      filter (\<lambda>n. target n = el) (notifications s)"
    by simp
  moreover from forEach_hidden_listeners [OF assms(1) f] have "listeners s' el = listeners s el"
    by simp
  ultimately show ?thesis
    using checkColumn_hidden [OF assms(1)] by blast
qed

theorem hidden_suppresses_witness:
  "hidden hidden_host 0
   \<and> (\<exists>res s'. checkColumnPosition hidden_host (ColumnScrollLogger two_columns) = (res, s')
        \<and> filter (\<lambda>n. target n = 0) (notifications s') = []
        \<and> listeners s' 0 = listeners (ColumnScrollLogger two_columns) 0)"
proof -
  have "hidden hidden_host 2"
    by (rule hidden.own) (simp add: hidden_host_def)
  then have hid: "hidden hidden_host 0"
    by (rule hidden.ancestor [rotated]) (simp add: hidden_host_def scrolled_host_def)
  obtain res s' where
    c: "checkColumnPosition hidden_host (ColumnScrollLogger two_columns) = (res, s')"
    by (cases "checkColumnPosition hidden_host (ColumnScrollLogger two_columns)")
  from hidden_suppresses [OF hid c] hid c show ?thesis by simp
qed

subsection \<open>Termination of the hidden test\<close>

text \<open>
  Claim C8, as stated, on the deep document: element 0 has a finite chain of 12001
  elements, none of which has display \<^verbatim>\<open>none\<close>, and the call stack has room for 10000
  nested calls. The hidden test does not report the element as not hidden: it throws a
  \<^verbatim>\<open>RangeError\<close>. The test does not tolerate chains of every depth.
\<close>

theorem isHidden_deep_chain_counterexample:
  "finite_chain deep_host 0 12001
   \<and> \<not> hidden deep_host 0
   \<and> stackFrames deep_host = 10000
   \<and> isHidden (stackFrames deep_host) deep_host 0 = Inl RangeError"
proof -
  have fc: "finite_chain deep_host 0 12001"
    using finite_chain_deep_host [of 0] by simp
  have fr: "stackFrames deep_host = 10000"
    by (simp add: deep_host_def scrolled_host_def)
  from isHidden_overflow [OF fc not_hidden_deep_host, of 10000] fc fr not_hidden_deep_host
  show ?thesis by simp
qed

text \<open>
  Claim C8, amended. The hidden test recurses, one nested call for each element it walks
  to. On an element whose chain of parents is finite and readable and has no more elements
  than nested calls fit on the call stack, the test returns, and its answer is true if and
  only if the element itself or one of its ancestors has computed display \<^verbatim>\<open>none\<close>; an
  element without parent that is not itself \<^verbatim>\<open>none\<close> ends the walk with the answer
  \<^verbatim>\<open>undefined\<close>, which counts as not hidden. On a chain with more elements than calls fit on
  the stack, none of them hidden, the test throws a \<^verbatim>\<open>RangeError\<close>.
\<close>

theorem isHidden_within_stack:
  assumes "finite_chain h el n"
  shows "(n \<le> frames \<longrightarrow>
      (\<exists>v. isHidden frames h el = Inr v \<and> (truthy v \<longleftrightarrow> hidden h el)
         \<and> (parentElement h el = None \<and> getComputedStyle h el \<noteq> Some ''none''
              \<longrightarrow> v = JUndefined)))
   \<and> (frames < n \<longrightarrow> \<not> hidden h el \<longrightarrow> isHidden frames h el = Inl RangeError)"
proof (intro conjI impI)
  assume "n \<le> frames"
  with isHidden_finite_chain [OF assms] obtain v where
    v: "isHidden frames h el = Inr v" "v = JTrue \<longleftrightarrow> hidden h el"
    by blast
  have "v = JUndefined" if "parentElement h el = None" "getComputedStyle h el \<noteq> Some ''none''"
    using that v(2) by (simp add: hidden_root flip: not_JTrue)
  with v show "\<exists>v. isHidden frames h el = Inr v \<and> (truthy v \<longleftrightarrow> hidden h el)
         \<and> (parentElement h el = None \<and> getComputedStyle h el \<noteq> Some ''none''
              \<longrightarrow> v = JUndefined)"
    by (auto simp: truthy_iff)
next
  assume "frames < n" and "\<not> hidden h el"
  with isHidden_overflow [OF assms] show "isHidden frames h el = Inl RangeError"
    by blast
qed

theorem isHidden_within_stack_witness:
  "isHidden (stackFrames hidden_host) hidden_host 0 = Inr JTrue
   \<and> isHidden 2 scrolled_host 0 = Inr JUndefined
   \<and> isHidden 1 scrolled_host 0 = Inl RangeError"
proof -
  have top: "finite_chain hidden_host 2 (Suc 0)"
    by (rule finite_chain.root [where d = "''none''"])
       (simp_all add: hidden_host_def scrolled_host_def)
  have fc: "finite_chain hidden_host 0 2"
    using finite_chain.child [where d = "''block''", OF _ _ top, of 0]
    by (simp add: hidden_host_def scrolled_host_def numeral_2_eq_2)
  have "hidden hidden_host 2"
    by (rule hidden.own) (simp add: hidden_host_def)
  then have hid: "hidden hidden_host 0"
    by (rule hidden.ancestor [rotated]) (simp add: hidden_host_def scrolled_host_def)
  have fr: "stackFrames hidden_host = 10000"
    by (simp add: hidden_host_def scrolled_host_def)
  have top': "finite_chain scrolled_host 2 (Suc 0)"
    by (rule finite_chain.root [where d = "''block''"]) (simp_all add: scrolled_host_def)
  have fc': "finite_chain scrolled_host 0 2"
    using finite_chain.child [where d = "''block''", OF _ _ top', of 0]
    by (simp add: scrolled_host_def numeral_2_eq_2)
  have nh: "\<not> hidden scrolled_host 0"
  proof
    assume "hidden scrolled_host 0"
    then show False
      by (induction rule: hidden.induct) (simp_all add: scrolled_host_def)
  qed
  have root0: "parentElement scrolled_host 0 \<noteq> None"
    by (simp add: scrolled_host_def)
  from isHidden_within_stack [OF fc, of 10000] isHidden_within_stack [OF fc', of 2]
       isHidden_within_stack [OF fc', of 1] hid nh fr
  show ?thesis by (auto simp: truthy_iff not_JTrue)
qed

subsection \<open>Once only\<close>

text \<open>
  Claim C1. \<^verbatim>\<open>querySelectorAll\<close> lists every matching element once. Then, after any sequence
  of scroll and resize signals, whatever the hosts answer during them, the listener of a
  position has run at most once on an element: the notifications of one element and one
  position number at most one, however many of the calls found the point of that position
  inside the viewport.
\<close>

theorem once_only:
  assumes "distinct (querySelectorAll_column pg)"
  shows "length (filter (\<lambda>n. target n = el \<and> pos n = p)
           (notifications (signals hs (ColumnScrollLogger pg)))) \<le> 1"
proof -
  let ?P = "\<lambda>s. all_once s \<and> (\<forall>el p. delivered s el p + armed s el p \<le> 1)"
  have "?P (ColumnScrollLogger pg)"
    by (simp add: all_once_ColumnScrollLogger armed_ColumnScrollLogger [OF assms] delivered_def)
  with signals_invariant [of ?P, OF latch_step] have "?P (signals hs (ColumnScrollLogger pg))"
    by (simp add: latch_dir)
  then have "delivered (signals hs (ColumnScrollLogger pg)) el p
      + armed (signals hs (ColumnScrollLogger pg)) el p \<le> 1"
    by blast
  then show ?thesis by (simp add: delivered_def)
qed

theorem once_only_witness:
  "length (filter (\<lambda>n. target n = 0 \<and> pos n = Start)
     (notifications (signals [scrolled_host, scrolled_host] (ColumnScrollLogger two_columns)))) \<le> 1"
proof -
  have d: "distinct (querySelectorAll_column two_columns)"
    by (simp add: two_columns_def)
  from once_only [OF d, of 0 Start "[scrolled_host, scrolled_host]"] show ?thesis .
qed

subsection \<open>The log lines\<close>

text \<open>
  Claim C9. Every line logged, after any sequence of signals, is the literal text of its
  position around the identifier of its element, taken verbatim as it was at construction:
  "Column with id:<id> started to become visible on the page.",
  "Column with id:<id> is now more than 50% visible on the page." and
  "Column with id:<id> is now fully visible on the page.". For an element without an
  \<^verbatim>\<open>id\<close> attribute the identifier is the empty string; formatting has no failing case.
\<close>

theorem log_line_template:
  assumes "n \<in> set (notifications (signals hs (ColumnScrollLogger pg)))"
  shows "line n = ''Column with id:''
     @ (case id_attribute pg (target n) of None \<Rightarrow> [] | Some i \<Rightarrow> i)
     @ (case pos n of
          Start \<Rightarrow> '' started to become visible on the page.''
        | Center \<Rightarrow> '' is now more than 50% visible on the page.''
        | End \<Rightarrow> '' is now fully visible on the page.'')"
proof -
  have "ids_kept pg (signals hs (ColumnScrollLogger pg))
      \<and> lines_kept pg (signals hs (ColumnScrollLogger pg))"
  proof (rule signals_invariant [where P = "\<lambda>s. ids_kept pg s \<and> lines_kept pg s"])
    show "ids_kept pg (ColumnScrollLogger pg) \<and> lines_kept pg (ColumnScrollLogger pg)"
      by (rule log_line_init)
  qed (simp_all add: log_line_step log_line_dir)
  with assms have "line n = logStatus (pos n) (element_id pg (target n))"
    by (simp add: lines_kept_def)
  then show ?thesis
    by (cases "pos n") (simp_all add: element_id_def)
qed

theorem log_line_template_witness:
  "map line (notifications (signals [scrolled_host] (ColumnScrollLogger one_column))) =
     [''Column with id: is now more than 50% visible on the page.'',
      ''Column with id: is now fully visible on the page.'']"
proof -
  have "map (\<lambda>n. (target n, pos n))
      (notifications (signals [scrolled_host] (ColumnScrollLogger one_column))) =
      [(1, Center), (1, End)]"
    by (simp add: cycle_defs scrolled_host_def one_column_def)
  then obtain a b where ab:
      "notifications (signals [scrolled_host] (ColumnScrollLogger one_column)) = [a, b]"
      "target a = 1" "pos a = Center" "target b = 1" "pos b = End"
    by auto
  from log_line_template [of a "[scrolled_host]" one_column]
       log_line_template [of b "[scrolled_host]" one_column] ab
  show ?thesis
    by (simp add: one_column_def)
qed

subsection \<open>Independence of the three notifications\<close>

text \<open>
  Claim C10. The three notifications of an element do not wait for each other. In the first
  check cycle of a document whose only column begins above the viewport (top = - 50) and has
  its center (50) and its bottom (150) inside it, the direction is down, the center and end
  notifications are delivered, and no start notification is or has been delivered.
\<close>

theorem center_without_start:
  "\<exists>s'. checkColumnPosition scrolled_host (ColumnScrollLogger one_column) = (None, s')
     \<and> scrollDirection s' = Some Down
     \<and> notifications (ColumnScrollLogger one_column) = []
     \<and> notifications s' =
         [\<lparr>target = 1, pos = Center,
            line = ''Column with id: is now more than 50% visible on the page.''\<rparr>,
          \<lparr>target = 1, pos = End,
            line = ''Column with id: is now fully visible on the page.''\<rparr>]"
  by (simp add: cycle_defs scrolled_host_def one_column_def)

subsection \<open>A failing host query\<close>




end
